theory Spec2Isabelle
  imports Main
begin

section \<open>Per-instance method caches of \<^verbatim>\<open>sretoolbox/utils/cache.py\<close>\<close>

text \<open>
  The module keeps one process-wide registry \<^verbatim>\<open>_CACHES\<close> (a \<^verbatim>\<open>WeakKeyDictionary\<close>) from
  class instances to their cache dict, and six decorators plus three raw accessors that
  read and write it. Everything the Python does besides returning a value is an effect
  on the program state, so every operation takes the state and returns the new one.

  \<^item> \<open>'i\<close>: owners as the registry files them (\<open>weak_key\<close> below);
  \<^item> \<open>'k\<close>: cache keys (hashable values); \<open>'v\<close>: cached values, any Python value;
  \<^item> \<open>'a\<close>: the bundle \<^verbatim>\<open>*args, **kwargs\<close> of one call, without \<^verbatim>\<open>self\<close>;
  \<^item> \<open>'u\<close>: the rest of the program state (fields of the instances, counters, ...).

  An exception is \<^verbatim>\<open>KeyError\<close> with its key, or any other exception, told apart by a
  string.

  Instances are alive while they are used (a call holds its \<^verbatim>\<open>self\<close>), so the weak
  registry drops no entry in between; collection of unreachable instances is not part of
  the model. Instances and keys are hashable, so the registry and the dicts raise nothing
  but \<^verbatim>\<open>KeyError\<close>.
\<close>

subsection \<open>State and exceptions\<close>

datatype 'k error = KeyError 'k | Raised string

record ('i, 'k, 'v, 'u) world =
  caches :: "'i \<rightharpoonup> ('k \<rightharpoonup> 'v)"
  user :: 'u

text \<open>
  A wrapped method \<^verbatim>\<open>func(self, *args, **kwargs)\<close> and a key function
  \<^verbatim>\<open>key_func(*args, **kwargs)\<close> are arbitrary Python: they may raise, change the rest
  of the state, and call back into this module. Both are state transformers that return
  an exception (\<open>Inl\<close>) or a value (\<open>Inr\<close>).
\<close>

type_synonym ('i, 'k, 'v, 'u, 'r) outcome =
  "('k error + 'r) \<times> ('i, 'k, 'v, 'u) world"

type_synonym ('i, 'a, 'k, 'v, 'u) wrapped =
  "'i \<Rightarrow> 'a \<Rightarrow> ('i, 'k, 'v, 'u) world \<Rightarrow> ('i, 'k, 'v, 'u, 'v) outcome"

type_synonym ('i, 'a, 'k, 'v, 'u) keyfun =
  "'a \<Rightarrow> ('i, 'k, 'v, 'u) world \<Rightarrow> ('i, 'k, 'v, 'u, 'k) outcome"

subsection \<open>Dict primitives\<close>

text \<open>\<^verbatim>\<open>cache[key]\<close> raises \<^verbatim>\<open>KeyError\<close> on an absent key.\<close>

definition dict_getitem :: "('k \<rightharpoonup> 'v) \<Rightarrow> 'k \<Rightarrow> 'k error + 'v" where
  "dict_getitem cache key =
     (case cache key of None \<Rightarrow> Inl (KeyError key) | Some v \<Rightarrow> Inr v)"

text \<open>\<^verbatim>\<open>del cache[key]\<close> raises \<^verbatim>\<open>KeyError\<close> on an absent key.\<close>

definition dict_delitem :: "('k \<rightharpoonup> 'v) \<Rightarrow> 'k \<Rightarrow> 'k error + ('k \<rightharpoonup> 'v)" where
  "dict_delitem cache key =
     (case cache key of None \<Rightarrow> Inl (KeyError key) | Some v \<Rightarrow> Inr (cache(key := None)))"

text \<open>
  A dict is a mutable object; the registry is its only holder, so the dict of an owner
  is the value of the owner's registry slot and a mutation in place is written back to
  that slot.
\<close>

definition put_cache :: "'i \<Rightarrow> ('k \<rightharpoonup> 'v) \<Rightarrow> ('i, 'k, 'v, 'u) world \<Rightarrow> ('i, 'k, 'v, 'u) world" where
  "put_cache owner_ref cache w = w\<lparr>caches := (caches w)(owner_ref \<mapsto> cache)\<rparr>"

text \<open>
  \<^verbatim>\<open>cache[key] = value\<close> executed after \<^verbatim>\<open>func\<close> has run, on the dict fetched before:
  \<^verbatim>\<open>func\<close> may have changed the dict's contents meanwhile, so the write goes to the dict
  as it is now. Were the owner's registry slot gone by then, the write would land in a dict
  nobody holds and the registry would not show it.
\<close>

definition setitem :: "'i \<Rightarrow> 'k \<Rightarrow> 'v \<Rightarrow> ('i, 'k, 'v, 'u) world \<Rightarrow> ('i, 'k, 'v, 'u) world" where
  "setitem owner_ref key val w =
     (case caches w owner_ref of
        None \<Rightarrow> w
      | Some cache \<Rightarrow> put_cache owner_ref (cache(key \<mapsto> val)) w)"

text \<open>What the registry holds for an instance and a key (an observation, not source code).\<close>

definition cached :: "('i, 'k, 'v, 'u) world \<Rightarrow> 'i \<Rightarrow> 'k \<Rightarrow> 'v option" where
  "cached w inst key = (case caches w inst of None \<Rightarrow> None | Some cache \<Rightarrow> cache key)"

subsection \<open>Registry and raw accessors\<close>

text \<open>\<^verbatim>\<open>_lazy_init(owner_ref)\<close>: the owner's dict, created empty when the registry has none.\<close>

definition lazy_init ::
  "'i \<Rightarrow> ('i, 'k, 'v, 'u) world \<Rightarrow> ('k \<rightharpoonup> 'v) \<times> ('i, 'k, 'v, 'u) world" where
  "lazy_init owner_ref w =
     (case caches w owner_ref of
        Some cache \<Rightarrow> (cache, w)
      | None \<Rightarrow> (Map.empty, put_cache owner_ref Map.empty w))"

definition raw_set ::
  "'i \<Rightarrow> 'k \<Rightarrow> 'v \<Rightarrow> ('i, 'k, 'v, 'u) world \<Rightarrow> ('i, 'k, 'v, 'u) world" where
  "raw_set owner_ref key val w =
     (case lazy_init owner_ref w of
        (cache, w1) \<Rightarrow> put_cache owner_ref (cache(key \<mapsto> val)) w1)"

definition raw_get ::
  "'i \<Rightarrow> 'k \<Rightarrow> ('i, 'k, 'v, 'u) world \<Rightarrow> ('i, 'k, 'v, 'u, 'v) outcome" where
  "raw_get owner_ref key w =
     (case lazy_init owner_ref w of
        (cache, w1) \<Rightarrow> (dict_getitem cache key, w1))"

text \<open>\<^verbatim>\<open>raw_remove\<close> catches the \<^verbatim>\<open>KeyError\<close> of \<^verbatim>\<open>del cache[key]\<close> and nothing else.\<close>

definition raw_remove ::
  "'i \<Rightarrow> 'k \<Rightarrow> ('i, 'k, 'v, 'u) world \<Rightarrow> ('i, 'k, 'v, 'u, unit) outcome" where
  "raw_remove owner_ref key w =
     (case lazy_init owner_ref w of
        (cache, w1) \<Rightarrow>
          (case dict_delitem cache key of
             Inr cache' \<Rightarrow> (Inr (), put_cache owner_ref cache' w1)
           | Inl (KeyError k) \<Rightarrow> (Inr (), w1)
           | Inl (Raised e) \<Rightarrow> (Inl (Raised e), w1)))"

subsection \<open>The decorators\<close>

text \<open>
  \<^verbatim>\<open>static(key)(func)\<close> is \<^verbatim>\<open>with_cache_get\<close>. The handler of \<^verbatim>\<open>except KeyError\<close>
  runs \<^verbatim>\<open>func\<close> outside the \<^verbatim>\<open>try\<close> body, so an exception of \<^verbatim>\<open>func\<close> leaves the
  function before \<^verbatim>\<open>cache[key] = value\<close>.
\<close>

definition static ::
  "'k \<Rightarrow> ('i, 'a, 'k, 'v, 'u) wrapped \<Rightarrow> ('i, 'a, 'k, 'v, 'u) wrapped" where
  "static key func self args w =
     (case lazy_init self w of
        (cache, w1) \<Rightarrow>
          (case dict_getitem cache key of
             Inr val \<Rightarrow> (Inr val, w1)
           | Inl (KeyError k) \<Rightarrow>
               (case func self args w1 of
                  (Inl e, w2) \<Rightarrow> (Inl e, w2)
                | (Inr val, w2) \<Rightarrow> (Inr val, setitem self key val w2))
           | Inl (Raised e) \<Rightarrow> (Inl (Raised e), w1)))"

text \<open>\<^verbatim>\<open>computed(key_func)(func)\<close> is \<^verbatim>\<open>with_cache_computed\<close>: the key comes first.\<close>

definition computed ::
  "('i, 'a, 'k, 'v, 'u) keyfun \<Rightarrow> ('i, 'a, 'k, 'v, 'u) wrapped \<Rightarrow>
   ('i, 'a, 'k, 'v, 'u) wrapped" where
  "computed key_func func self args w =
     (case key_func args w of
        (Inl e, w0) \<Rightarrow> (Inl e, w0)
      | (Inr key, w0) \<Rightarrow>
          (case lazy_init self w0 of
             (cache, w1) \<Rightarrow>
               (case dict_getitem cache key of
                  Inr val \<Rightarrow> (Inr val, w1)
                | Inl (KeyError k) \<Rightarrow>
                    (case func self args w1 of
                       (Inl e, w2) \<Rightarrow> (Inl e, w2)
                     | (Inr val, w2) \<Rightarrow> (Inr val, setitem self key val w2))
                | Inl (Raised e) \<Rightarrow> (Inl (Raised e), w1))))"

definition remove_static ::
  "'k \<Rightarrow> ('i, 'a, 'k, 'v, 'u) wrapped \<Rightarrow> ('i, 'a, 'k, 'v, 'u) wrapped" where
  "remove_static key func self args w =
     (case raw_remove self key w of
        (Inl e, w1) \<Rightarrow> (Inl e, w1)
      | (Inr u, w1) \<Rightarrow> func self args w1)"

definition remove_computed ::
  "('i, 'a, 'k, 'v, 'u) keyfun \<Rightarrow> ('i, 'a, 'k, 'v, 'u) wrapped \<Rightarrow>
   ('i, 'a, 'k, 'v, 'u) wrapped" where
  "remove_computed key_func func self args w =
     (case key_func args w of
        (Inl e, w0) \<Rightarrow> (Inl e, w0)
      | (Inr key, w0) \<Rightarrow>
          (case raw_remove self key w0 of
             (Inl e, w1) \<Rightarrow> (Inl e, w1)
           | (Inr u, w1) \<Rightarrow> func self args w1))"

definition replace_static ::
  "'k \<Rightarrow> ('i, 'a, 'k, 'v, 'u) wrapped \<Rightarrow> ('i, 'a, 'k, 'v, 'u) wrapped" where
  "replace_static key func self args w =
     (case func self args w of
        (Inl e, w1) \<Rightarrow> (Inl e, w1)
      | (Inr val, w1) \<Rightarrow> (Inr val, raw_set self key val w1))"

definition replace_computed ::
  "('i, 'a, 'k, 'v, 'u) keyfun \<Rightarrow> ('i, 'a, 'k, 'v, 'u) wrapped \<Rightarrow>
   ('i, 'a, 'k, 'v, 'u) wrapped" where
  "replace_computed key_func func self args w =
     (case key_func args w of
        (Inl e, w0) \<Rightarrow> (Inl e, w0)
      | (Inr key, w0) \<Rightarrow>
          (case func self args w0 of
             (Inl e, w1) \<Rightarrow> (Inl e, w1)
           | (Inr val, w1) \<Rightarrow> (Inr val, raw_set self key val w1)))"

subsection \<open>Calling a method several times in a row\<close>

text \<open>One call per element of the argument list, each in the state the previous one left.\<close>

fun call_each ::
  "('i, 'a, 'k, 'v, 'u) wrapped \<Rightarrow> 'i \<Rightarrow> 'a list \<Rightarrow> ('i, 'k, 'v, 'u) world \<Rightarrow>
   ('k error + 'v) list \<times> ('i, 'k, 'v, 'u) world" where
  "call_each m self [] w = ([], w)"
| "call_each m self (args # rest) w =
     (case m self args w of
        (r, w1) \<Rightarrow> (case call_each m self rest w1 of (rs, w2) \<Rightarrow> (r # rs, w2)))"

subsection \<open>Key functions without effects\<close>

text \<open>A key function that is a total, effect-free function \<open>d\<close> of the arguments.\<close>

definition pure_key :: "('a \<Rightarrow> 'k) \<Rightarrow> ('i, 'a, 'k, 'v, 'u) keyfun" where
  "pure_key d args w = (Inr (d args), w)"

subsection \<open>A concrete program for the examples\<close>

text \<open>
  The rest of the state counts the real invocations of the wrapped method and of the
  key function. \<open>tick\<close> is the method of the specification's example: it returns 1,
  then 2, ... on successive real invocations. \<open>boom\<close> always raises, \<open>nothing\<close>
  always returns Python's \<^verbatim>\<open>None\<close> (the values of its caches are \<open>int option\<close>),
  \<open>key_count\<close> derives the key from the arguments (the argument itself) and
  \<open>key_boom\<close> raises instead.
\<close>

record counters =
  f_calls :: nat
  key_calls :: nat

definition world0 :: "(nat, 'k, 'v, counters) world" where
  "world0 = \<lparr>caches = Map.empty, user = \<lparr>f_calls = 0, key_calls = 0\<rparr>\<rparr>"

definition count_f :: "('i, 'k, 'v, counters) world \<Rightarrow> ('i, 'k, 'v, counters) world" where
  "count_f w = w\<lparr>user := (user w)\<lparr>f_calls := Suc (f_calls (user w))\<rparr>\<rparr>"

definition count_key :: "('i, 'k, 'v, counters) world \<Rightarrow> ('i, 'k, 'v, counters) world" where
  "count_key w = w\<lparr>user := (user w)\<lparr>key_calls := Suc (key_calls (user w))\<rparr>\<rparr>"

definition tick :: "('i, int, 'k, int, counters) wrapped" where
  "tick self args w = (Inr (int (f_calls (user w)) + 1), count_f w)"

definition boom :: "('i, int, 'k, 'v, counters) wrapped" where
  "boom self args w = (Inl (Raised ''boom''), count_f w)"

definition nothing :: "('i, int, 'k, int option, counters) wrapped" where
  "nothing self args w = (Inr None, count_f w)"

definition key_count :: "('i, int, int, 'v, counters) keyfun" where
  "key_count args w = (Inr args, count_key w)"

definition key_boom :: "('i, int, int, 'v, counters) keyfun" where
  "key_boom args w = (Inl (Raised ''bad key''), count_key w)"

subsection \<open>Owners as the registry tells them apart\<close>









section \<open>Basic facts\<close>

lemma cached_put_cache:
  "cached (put_cache a c w) b key = (if b = a then c key else cached w b key)"
  by (simp add: cached_def put_cache_def)




lemma fst_lazy_init: "fst (lazy_init a w) key = cached w a key"
  by (simp add: lazy_init_def cached_def split: option.splits)

lemma static_hit: "cached w self key = Some v \<Longrightarrow> static key func self args w = (Inr v, w)"
  by (auto simp: static_def lazy_init_def cached_def dict_getitem_def split: option.splits)

lemma static_miss:
  "cached w self key = None \<Longrightarrow>
   static key func self args w =
     (case func self args (snd (lazy_init self w)) of
        (Inl e, w2) \<Rightarrow> (Inl e, w2)
      | (Inr v, w2) \<Rightarrow> (Inr v, setitem self key v w2))"
  by (auto simp: static_def lazy_init_def cached_def dict_getitem_def split: option.splits)

lemma cached_setitem:
  "caches w a \<noteq> None \<Longrightarrow> cached (setitem a key v w) b k = (if b = a \<and> k = key then Some v else cached w b k)"
  by (auto simp: setitem_def cached_def put_cache_def split: option.splits)


lemma user_lazy_init: "user (snd (lazy_init a w)) = user w"
  by (simp add: lazy_init_def put_cache_def split: option.splits)

lemma cached_raw_set:
  "cached (raw_set a key v w) b k = (if b = a \<and> k = key then Some v else cached w b k)"
  by (auto simp: raw_set_def lazy_init_def put_cache_def cached_def split: option.splits)


lemma user_raw_set: "user (raw_set a key v w) = user w"
  by (simp add: raw_set_def lazy_init_def put_cache_def split: option.splits)

lemma fst_raw_remove: "fst (raw_remove a key w) = Inr ()"
  by (simp add: raw_remove_def lazy_init_def dict_delitem_def split: option.splits)

lemma cached_raw_remove:
  "cached (snd (raw_remove a key w)) b k = (if b = a \<and> k = key then None else cached w b k)"
  by (auto simp: raw_remove_def lazy_init_def dict_delitem_def put_cache_def cached_def
      split: option.splits)


lemma user_raw_remove: "user (snd (raw_remove a key w)) = user w"
  by (simp add: raw_remove_def lazy_init_def dict_delitem_def put_cache_def split: option.splits)

lemma raw_remove_absent:
  "cached w a key = None \<Longrightarrow> raw_remove a key w = (Inr (), snd (lazy_init a w))"
  by (auto simp: raw_remove_def lazy_init_def dict_delitem_def cached_def split: option.splits)

lemma raw_get_eq: "raw_get a key w =
   ((case cached w a key of None \<Rightarrow> Inl (KeyError key) | Some v \<Rightarrow> Inr v), snd (lazy_init a w))"
  by (simp add: raw_get_def lazy_init_def dict_getitem_def cached_def split: option.splits)

lemma computed_eq:
  "computed key_func func self args w =
     (case key_func args w of
        (Inl e, w0) \<Rightarrow> (Inl e, w0)
      | (Inr key, w0) \<Rightarrow> static key func self args w0)"
  by (simp add: computed_def static_def split: prod.splits sum.splits)

lemma remove_computed_eq:
  "remove_computed key_func func self args w =
     (case key_func args w of
        (Inl e, w0) \<Rightarrow> (Inl e, w0)
      | (Inr key, w0) \<Rightarrow> remove_static key func self args w0)"
  by (simp add: remove_computed_def remove_static_def split: prod.splits sum.splits)

lemma replace_computed_eq:
  "replace_computed key_func func self args w =
     (case key_func args w of
        (Inl e, w0) \<Rightarrow> (Inl e, w0)
      | (Inr key, w0) \<Rightarrow> replace_static key func self args w0)"
  by (simp add: replace_computed_def replace_static_def split: prod.splits sum.splits)

lemma remove_static_eq:
  "remove_static key func self args w = func self args (snd (raw_remove self key w))"
  by (simp add: remove_static_def raw_remove_def lazy_init_def dict_delitem_def
      split: option.splits)

lemma call_each_static_hit:
  "cached w self key = Some v \<Longrightarrow>
   call_each (static key func) self argss w = (replicate (length argss) (Inr v), w)"
  by (induction argss) (simp_all add: static_hit)

lemma static_miss_ok:
  assumes "cached w self key = None" "func self args (snd (lazy_init self w)) = (Inr v, w2)"
  shows "static key func self args w = (Inr v, setitem self key v w2)"
  using assms by (simp add: static_miss)

lemma static_miss_err:
  assumes "cached w self key = None" "func self args (snd (lazy_init self w)) = (Inl e, w2)"
  shows "static key func self args w = (Inl e, w2)"
  using assms by (simp add: static_miss)

lemmas ex_defs =
  world0_def count_f_def count_key_def tick_def boom_def nothing_def key_count_def
  key_boom_def pure_key_def


lemmas op_defs =
  lazy_init_def put_cache_def setitem_def cached_def raw_set_def raw_get_def raw_remove_def
  dict_getitem_def dict_delitem_def

section \<open>Static-key memoized lookup\<close>

text \<open>
  Claim C1. A call of a method wrapped by \<^verbatim>\<open>static(key)\<close>: when the key is in the
  instance's cache, the call returns the stored value and leaves the state as it is,
  whatever \<open>func\<close> is (it is not invoked). When the key is absent, \<open>func\<close> is invoked
  with the original arguments (in the state where the instance has its cache dict), and
  when it returns \<open>v'\<close> the call returns \<open>v'\<close> and writes it under the key into the
  instance's dict; with the instance still registered, the instance's cache then holds
  \<open>v'\<close> under the key.
\<close>

theorem static_lookup:
  "(cached w self key = Some v \<longrightarrow> static key func self args w = (Inr v, w)) \<and>
   (cached w self key = None \<and> func self args (snd (lazy_init self w)) = (Inr v', w2) \<longrightarrow>
      static key func self args w = (Inr v', setitem self key v' w2) \<and>
      (caches w2 self \<noteq> None \<longrightarrow> cached (setitem self key v' w2) self key = Some v'))"
  by (simp add: static_hit static_miss cached_setitem)

theorem static_lookup_witness:
  "static ''x'' tick 0 5 (raw_set 0 ''x'' 7 world0) = (Inr 7, raw_set 0 ''x'' 7 world0) \<and>
   static ''x'' tick 0 5 world0 =
     (Inr 1, setitem 0 ''x'' 1 (snd (tick 0 5 (snd (lazy_init 0 world0))))) \<and>
   cached (snd (static ''x'' tick 0 5 world0)) 0 ''x'' = Some 1 \<and>
   f_calls (user (snd (static ''x'' tick 0 5 world0))) = 1"
proof -
  have hit: "cached (raw_set 0 ''x'' 7 world0) 0 ''x'' = Some (7::int)"
    by (simp add: ex_defs op_defs)
  have miss: "cached world0 0 ''x'' = None"
    by (simp add: ex_defs op_defs)
  have run: "tick 0 5 (snd (lazy_init 0 world0)) =
      (Inr 1, snd (tick 0 5 (snd (lazy_init 0 world0))))"
    by (simp add: ex_defs op_defs)
  have live: "caches (snd (tick 0 5 (snd (lazy_init 0 world0)))) 0 \<noteq> None"
    by (simp add: ex_defs op_defs)
  note a = static_lookup [of "raw_set 0 ''x'' 7 world0" 0 "''x''" 7 tick 5,
      THEN conjunct1, rule_format, OF hit]
  note b = static_lookup [of world0 0 "''x''" _ tick 5 1
        "snd (tick 0 5 (snd (lazy_init 0 world0)))",
      THEN conjunct2, rule_format, OF conjI [OF miss run]]
  from a b live show ?thesis
    by (simp add: ex_defs op_defs)
qed

text \<open>
  Claim C2. Idempotence of a static-key memoized method. When the first of \<open>N \<ge> 1\<close>
  calls in a row returns a value \<open>v\<close> (and the instance is still registered), every
  one of the \<open>N\<close> calls returns \<open>v\<close>, whatever their arguments, and the state after
  the \<open>N\<close> calls is the state after the first call alone. Starting from an absent key,
  that state is the one a single run of \<open>func\<close> left, with \<open>v\<close> written under the
  key: the effects of \<open>func\<close> happen exactly once.
\<close>

theorem static_idempotent:
  "(static key func self args w = (Inr v, w') \<and> caches w' self \<noteq> None \<longrightarrow>
      call_each (static key func) self (args # rest) w =
        (replicate (Suc (length rest)) (Inr v), w')) \<and>
   (cached w self key = None \<and> func self args (snd (lazy_init self w)) = (Inr v, w2) \<and>
    caches w2 self \<noteq> None \<longrightarrow>
      call_each (static key func) self (args # rest) w =
        (replicate (Suc (length rest)) (Inr v), setitem self key v w2))"
proof (intro conjI impI)
  assume a: "static key func self args w = (Inr v, w') \<and> caches w' self \<noteq> None"
  have "cached w' self key = Some v"
  proof (cases "cached w self key")
    case None
    with a obtain w2 where f: "func self args (snd (lazy_init self w)) = (Inr v, w2)"
      and w': "w' = setitem self key v w2"
      by (auto simp: static_miss split: prod.splits sum.splits)
    from a w' have "caches w2 self \<noteq> None"
      by (auto simp: setitem_def split: option.splits)
    with w' show ?thesis by (simp add: cached_setitem)
  next
    case (Some u)
    with a show ?thesis by (simp add: static_hit)
  qed
  then show "call_each (static key func) self (args # rest) w =
        (replicate (Suc (length rest)) (Inr v), w')"
    using a by (simp add: call_each_static_hit)
next
  assume b: "cached w self key = None \<and> func self args (snd (lazy_init self w)) = (Inr v, w2) \<and>
    caches w2 self \<noteq> None"
  then have s: "static key func self args w = (Inr v, setitem self key v w2)"
    by (simp add: static_miss)
  from b have "cached (setitem self key v w2) self key = Some v"
    by (simp add: cached_setitem)
  then show "call_each (static key func) self (args # rest) w =
        (replicate (Suc (length rest)) (Inr v), setitem self key v w2)"
    using s by (simp add: call_each_static_hit)
qed

theorem static_idempotent_witness:
  "call_each (static ''x'' tick) 0 [5, 6, 7] world0 =
     ([Inr 1, Inr 1, Inr 1], snd (static ''x'' tick 0 5 world0)) \<and>
   fst (static ''x'' tick 0 5 world0) = Inr 1 \<and>
   f_calls (user (snd (call_each (static ''x'' tick) 0 [5, 6, 7] world0))) = 1 \<and>
   f_calls (user (snd (call_each tick 0 [5, 6, 7] (world0 :: (nat, string, int, counters) world)))) = 3"
proof -
  let ?w2 = "snd (tick 0 5 (snd (lazy_init 0 (world0 :: (nat, string, int, counters) world))))"
  have miss: "cached (world0 :: (nat, string, int, counters) world) 0 ''x'' = None"
    by (simp add: ex_defs op_defs)
  have run: "tick 0 5 (snd (lazy_init 0 world0)) = (Inr 1, ?w2)"
    by (simp add: ex_defs op_defs)
  have live: "caches ?w2 0 \<noteq> None"
    by (simp add: ex_defs op_defs)
  have one: "static ''x'' tick 0 5 world0 = (Inr 1, setitem 0 ''x'' 1 ?w2)"
    using miss run by (rule static_miss_ok)
  have "call_each (static ''x'' tick) 0 [5, 6, 7] world0 =
      (replicate (Suc (length [6, 7 :: int])) (Inr 1), setitem 0 ''x'' 1 ?w2)"
    using static_idempotent [of "''x''" tick 0 5 world0 1 _ "[6, 7]" ?w2] miss run live
    by blast
  then have all: "call_each (static ''x'' tick) 0 [5, 6, 7] world0 =
      ([Inr 1, Inr 1, Inr 1], setitem 0 ''x'' 1 ?w2)"
    by (simp add: numeral_2_eq_2)
  have cnt: "f_calls (user (setitem 0 ''x'' 1 ?w2)) = 1"
    by (simp add: ex_defs op_defs)
  have plain: "f_calls (user (snd (call_each tick 0 [5, 6, 7]
      (world0 :: (nat, string, int, counters) world)))) = 3"
    by (simp add: ex_defs)
  from all one cnt plain show ?thesis by simp
qed

lemma lazy_init_registered: "caches w a \<noteq> None \<Longrightarrow> snd (lazy_init a w) = w"
  by (auto simp: lazy_init_def split: option.splits)

lemma caches_setitem:
  "caches (setitem a key v w) b =
     (if b = a then map_option (\<lambda>c. c(key \<mapsto> v)) (caches w a) else caches w b)"
  by (simp add: setitem_def put_cache_def split: option.splits)

lemma setitem_registered: "caches w a \<noteq> None \<Longrightarrow> caches (setitem a key v w) a \<noteq> None"
  by (simp add: caches_setitem)

lemma user_setitem: "user (setitem a key v w) = user w"
  by (simp add: setitem_def put_cache_def split: option.splits)

lemma computed_pure: "computed (pure_key d) func self args w = static (d args) func self args w"
  by (simp add: computed_eq pure_key_def)

section \<open>Computed-key memoized lookup\<close>

text \<open>
  Claim C3. A call of a method wrapped by \<^verbatim>\<open>computed(key_func)\<close> first applies
  \<open>key_func\<close> to the arguments of the call (the instance is not among them); when that
  raises, so does the call, and otherwise the call is the static-key lookup under the
  derived key, in the state \<open>key_func\<close> left. In particular, for a key function that is
  a pure function \<open>d\<close> of the arguments: from a cache without \<open>d A\<close>, a call with \<open>A\<close>
  runs \<open>func\<close> on \<open>A\<close> and stores its result; a following call with \<open>B\<close>, where
  \<open>d A \<noteq> d B\<close> and \<open>d B\<close> is not cached, runs \<open>func\<close> again, on \<open>B\<close>, and stores
  that result under \<open>d B\<close>; a following call with \<open>A\<close> again returns the stored value
  and leaves the state as it is (no second run of \<open>func\<close>).
\<close>

theorem computed_lookup:
  "computed key_func func self args w =
     (case key_func args w of
        (Inl e, w0) \<Rightarrow> (Inl e, w0)
      | (Inr key, w0) \<Rightarrow> static key func self args w0) \<and>
   (cached w self (d A) = None \<and> func self A (snd (lazy_init self w)) = (Inr vA, w2) \<and>
    caches w2 self \<noteq> None \<and> d A \<noteq> d B \<and> cached w2 self (d B) = None \<longrightarrow>
      computed (pure_key d) func self A w = (Inr vA, setitem self (d A) vA w2) \<and>
      computed (pure_key d) func self B (setitem self (d A) vA w2) =
        (case func self B (setitem self (d A) vA w2) of
           (Inl e, w4) \<Rightarrow> (Inl e, w4)
         | (Inr vB, w4) \<Rightarrow> (Inr vB, setitem self (d B) vB w4)) \<and>
      computed (pure_key d) func self A (setitem self (d A) vA w2) =
        (Inr vA, setitem self (d A) vA w2))"
proof (intro conjI impI)
  show "computed key_func func self args w =
     (case key_func args w of
        (Inl e, w0) \<Rightarrow> (Inl e, w0)
      | (Inr key, w0) \<Rightarrow> static key func self args w0)"
    by (rule computed_eq)
next
  assume h: "cached w self (d A) = None \<and> func self A (snd (lazy_init self w)) = (Inr vA, w2) \<and>
    caches w2 self \<noteq> None \<and> d A \<noteq> d B \<and> cached w2 self (d B) = None"
  let ?w3 = "setitem self (d A) vA w2"
  from h show "computed (pure_key d) func self A w = (Inr vA, ?w3)"
    by (simp add: computed_pure static_miss)
  from h have live: "caches ?w3 self \<noteq> None"
    by (simp add: setitem_registered)
  from h have "cached ?w3 self (d B) = None"
    by (auto simp: cached_setitem)
  then show "computed (pure_key d) func self B ?w3 =
        (case func self B ?w3 of
           (Inl e, w4) \<Rightarrow> (Inl e, w4)
         | (Inr vB, w4) \<Rightarrow> (Inr vB, setitem self (d B) vB w4))"
    using live by (simp add: computed_pure static_miss lazy_init_registered)
  from h have "cached ?w3 self (d A) = Some vA"
    by (simp add: cached_setitem)
  then show "computed (pure_key d) func self A ?w3 = (Inr vA, ?w3)"
    by (simp add: computed_pure static_hit)
qed

theorem computed_lookup_witness:
  "computed key_count tick 0 5 world0 = static 5 tick 0 5 (count_key world0) \<and>
   fst (call_each (computed (pure_key (\<lambda>a. a)) tick) 0 [5, 6, 5] world0) =
     [Inr 1, Inr 2, Inr 1] \<and>
   f_calls (user (snd (call_each (computed (pure_key (\<lambda>a. a)) tick) 0 [5, 6, 5] world0))) = 2 \<and>
   fst (call_each (computed (pure_key (\<lambda>a. a)) tick) 0 [5, 5] world0) = [Inr 1, Inr 1] \<and>
   f_calls (user (snd (call_each (computed (pure_key (\<lambda>a. a)) tick) 0 [5, 5] world0))) = 1"
proof -
  let ?w0 = "world0 :: (nat, int, int, counters) world"
  let ?w2 = "snd (tick 0 5 (snd (lazy_init 0 ?w0)))"
  let ?w3 = "setitem 0 5 1 ?w2"
  let ?d = "\<lambda>a::int. a"
  have miss: "cached ?w0 0 (?d 5) = None"
    by (simp add: ex_defs op_defs)
  have run: "tick 0 5 (snd (lazy_init 0 ?w0)) = (Inr 1, ?w2)"
    by (simp add: ex_defs op_defs)
  have live: "caches ?w2 0 \<noteq> None"
    by (simp add: ex_defs op_defs)
  have ne: "?d 5 \<noteq> ?d 6"
    by simp
  have missB: "cached ?w2 0 (?d 6) = None"
    by (simp add: ex_defs op_defs)
  note t = computed_lookup [of key_count tick 0 5 ?w0 ?d 5 1 ?w2 6]
  from t have eq: "computed key_count tick 0 5 ?w0 = static 5 tick 0 5 (count_key ?w0)"
    by (simp add: key_count_def)
  from t miss run live ne missB
  have c1: "computed (pure_key ?d) tick 0 5 ?w0 = (Inr 1, ?w3)"
    and c2: "computed (pure_key ?d) tick 0 6 ?w3 =
        (case tick 0 6 ?w3 of
           (Inl e, w4) \<Rightarrow> (Inl e, w4)
         | (Inr vB, w4) \<Rightarrow> (Inr vB, setitem 0 (?d 6) vB w4))"
    and c3: "computed (pure_key ?d) tick 0 5 ?w3 = (Inr 1, ?w3)"
    by blast+
  have t2: "tick 0 6 ?w3 = (Inr 2, count_f ?w3)"
    by (simp add: ex_defs op_defs)
  have c2': "computed (pure_key ?d) tick 0 6 ?w3 = (Inr 2, setitem 0 6 2 (count_f ?w3))"
    using c2 by (simp add: t2)
  have c4: "computed (pure_key ?d) tick 0 5 (setitem 0 6 2 (count_f ?w3)) =
      (Inr 1, setitem 0 6 2 (count_f ?w3))"
    by (simp add: computed_pure static_def ex_defs op_defs)
  have cnt: "f_calls (user (setitem 0 6 2 (count_f ?w3))) = 2"
    by (simp add: ex_defs op_defs)
  have cnt1: "f_calls (user ?w3) = 1"
    by (simp add: ex_defs op_defs)
  from eq c1 c2' c3 c4 cnt cnt1 show ?thesis
    by simp
qed

section \<open>Invalidating wrappers\<close>

text \<open>
  Claim C4. \<^verbatim>\<open>remove_static(key)\<close> and \<^verbatim>\<open>remove_computed(key_func)\<close>: the removal never
  raises and leaves the key absent from the instance's cache; for a key that was absent
  already it only does what \<^verbatim>\<open>_lazy_init\<close> does. The wrapper then is \<open>func\<close> itself,
  run with the original arguments in the state after the removal (for the computed
  variant: after \<open>key_func\<close>, under the derived key), so the outcome of \<open>func\<close> is
  returned as it is. When \<open>func\<close> leaves the entry under the key as it found it, a
  memoized lookup under the same key that follows runs its computation \<open>g\<close> anew and
  stores that result: the value cached before the invalidation is not returned.
\<close>

theorem remove_then_recompute:
  "fst (raw_remove self key w) = Inr () \<and>
   cached (snd (raw_remove self key w)) self key = None \<and>
   (cached w self key = None \<longrightarrow> raw_remove self key w = (Inr (), snd (lazy_init self w))) \<and>
   remove_static key func self args w = func self args (snd (raw_remove self key w)) \<and>
   remove_computed key_func func self args w =
     (case key_func args w of
        (Inl e, w0) \<Rightarrow> (Inl e, w0)
      | (Inr k, w0) \<Rightarrow> remove_static k func self args w0) \<and>
   (func self args (snd (raw_remove self key w)) = (r, w3) \<and>
    cached w3 self key = cached (snd (raw_remove self key w)) self key \<longrightarrow>
      remove_static key func self args w = (r, w3) \<and>
      static key g self args' w3 =
        (case g self args' (snd (lazy_init self w3)) of
           (Inl e, w4) \<Rightarrow> (Inl e, w4)
         | (Inr v, w4) \<Rightarrow> (Inr v, setitem self key v w4))) \<and>
   (key_func args w = (Inr key, w0) \<and> func self args (snd (raw_remove self key w0)) = (r, w3) \<and>
    cached w3 self key = cached (snd (raw_remove self key w0)) self key \<longrightarrow>
      remove_computed key_func func self args w = (r, w3) \<and>
      static key g self args' w3 =
        (case g self args' (snd (lazy_init self w3)) of
           (Inl e, w4) \<Rightarrow> (Inl e, w4)
         | (Inr v, w4) \<Rightarrow> (Inr v, setitem self key v w4)))"
proof (intro conjI impI)
  show "fst (raw_remove self key w) = Inr ()"
    by (rule fst_raw_remove)
  show "cached (snd (raw_remove self key w)) self key = None"
    by (simp add: cached_raw_remove)
  show "raw_remove self key w = (Inr (), snd (lazy_init self w))" if "cached w self key = None"
    using that by (rule raw_remove_absent)
  show "remove_static key func self args w = func self args (snd (raw_remove self key w))"
    by (rule remove_static_eq)
  show "remove_computed key_func func self args w =
     (case key_func args w of
        (Inl e, w0) \<Rightarrow> (Inl e, w0)
      | (Inr k, w0) \<Rightarrow> remove_static k func self args w0)"
    by (rule remove_computed_eq)
next
  assume h: "func self args (snd (raw_remove self key w)) = (r, w3) \<and>
    cached w3 self key = cached (snd (raw_remove self key w)) self key"
  then show "remove_static key func self args w = (r, w3)"
    by (simp add: remove_static_eq)
  from h have "cached w3 self key = None"
    by (simp add: cached_raw_remove)
  then show "static key g self args' w3 =
        (case g self args' (snd (lazy_init self w3)) of
           (Inl e, w4) \<Rightarrow> (Inl e, w4)
         | (Inr v, w4) \<Rightarrow> (Inr v, setitem self key v w4))"
    by (rule static_miss)
next
  assume h: "key_func args w = (Inr key, w0) \<and>
    func self args (snd (raw_remove self key w0)) = (r, w3) \<and>
    cached w3 self key = cached (snd (raw_remove self key w0)) self key"
  then show "remove_computed key_func func self args w = (r, w3)"
    by (simp add: remove_computed_eq remove_static_eq)
  from h have "cached w3 self key = None"
    by (simp add: cached_raw_remove)
  then show "static key g self args' w3 =
        (case g self args' (snd (lazy_init self w3)) of
           (Inl e, w4) \<Rightarrow> (Inl e, w4)
         | (Inr v, w4) \<Rightarrow> (Inr v, setitem self key v w4))"
    by (rule static_miss)
qed

theorem remove_then_recompute_witness:
  "fst (static ''x'' tick 0 5 (raw_set 0 ''x'' 7 world0)) = Inr 7 \<and>
   fst (remove_static ''x'' tick 0 5 (raw_set 0 ''x'' 7 world0)) = Inr 1 \<and>
   fst (static ''x'' tick 0 5 (snd (remove_static ''x'' tick 0 5 (raw_set 0 ''x'' 7 world0)))) =
     Inr 2 \<and>
   raw_remove 0 ''x'' (world0 :: (nat, string, int, counters) world) =
     (Inr (), snd (lazy_init 0 world0)) \<and>
   fst (remove_computed key_count tick 0 5 (raw_set 0 5 7 world0)) = Inr 1 \<and>
   fst (static 5 tick 0 5 (snd (remove_computed key_count tick 0 5 (raw_set 0 5 7 world0)))) =
     Inr 2"
proof -
  let ?w = "raw_set 0 ''x'' 7 (world0 :: (nat, string, int, counters) world)"
  let ?w1 = "snd (raw_remove 0 ''x'' ?w)"
  let ?w3 = "count_f ?w1"
  have old: "fst (static ''x'' tick 0 5 ?w) = Inr 7"
    by (simp add: static_def ex_defs op_defs)
  have run: "tick 0 5 ?w1 = (Inr 1, ?w3)"
    by (simp add: ex_defs op_defs)
  have same: "cached ?w3 0 ''x'' = cached ?w1 0 ''x''"
    by (simp add: ex_defs op_defs)
  have absent: "cached (world0 :: (nat, string, int, counters) world) 0 ''x'' = None"
    by (simp add: ex_defs op_defs)
  note t = remove_then_recompute [of 0 "''x''" ?w tick 5 _ "Inr 1" ?w3 tick 5]
  from t run same have r1: "remove_static ''x'' tick 0 5 ?w = (Inr 1, ?w3)"
    and r2: "static ''x'' tick 0 5 ?w3 =
        (case tick 0 5 (snd (lazy_init 0 ?w3)) of
           (Inl e, w4) \<Rightarrow> (Inl e, w4)
         | (Inr v, w4) \<Rightarrow> (Inr v, setitem 0 ''x'' v w4))"
    by blast+
  have r2': "fst (static ''x'' tick 0 5 ?w3) = Inr 2"
    unfolding r2 by (simp add: ex_defs op_defs)
  have noop: "raw_remove 0 ''x'' (world0 :: (nat, string, int, counters) world) =
     (Inr (), snd (lazy_init 0 world0))"
    by (rule remove_then_recompute [THEN conjunct2, THEN conjunct2, THEN conjunct1,
          rule_format, OF absent])
  let ?va = "raw_set 0 5 7 (world0 :: (nat, int, int, counters) world)"
  let ?vb = "count_key ?va"
  let ?vc = "count_f (snd (raw_remove 0 5 ?vb))"
  have key: "key_count 5 ?va = (Inr 5, ?vb)"
    by (simp add: ex_defs)
  have crun: "tick 0 5 (snd (raw_remove 0 5 ?vb)) = (Inr 1, ?vc)"
    by (simp add: ex_defs op_defs)
  have csame: "cached ?vc 0 5 = cached (snd (raw_remove 0 5 ?vb)) 0 5"
    by (simp add: ex_defs op_defs)
  note c = remove_then_recompute [of 0 5 ?va tick 5 key_count "Inr 1" ?vc tick 5 ?vb ]
  from c key crun csame have c1: "remove_computed key_count tick 0 5 ?va = (Inr 1, ?vc)"
    and c2: "static 5 tick 0 5 ?vc =
        (case tick 0 5 (snd (lazy_init 0 ?vc)) of
           (Inl e, w4) \<Rightarrow> (Inl e, w4)
         | (Inr v, w4) \<Rightarrow> (Inr v, setitem 0 5 v w4))"
    by blast+
  have c2': "fst (static 5 tick 0 5 ?vc) = Inr 2"
    unfolding c2 by (simp add: ex_defs op_defs)
  from old r1 r2' noop c1 c2' show ?thesis
    by simp
qed

lemma fst_replace_static: "fst (replace_static key func self args w) = fst (func self args w)"
  by (simp add: replace_static_def split: prod.splits sum.splits)

lemma replace_static_ok:
  "func self args w = (Inr v, w1) \<Longrightarrow>
   replace_static key func self args w = (Inr v, raw_set self key v w1)"
  by (simp add: replace_static_def)

section \<open>Replacing wrappers\<close>

text \<open>
  Claim C5. \<^verbatim>\<open>replace_static(key)\<close> and \<^verbatim>\<open>replace_computed(key_func)\<close>: \<open>func\<close> is run
  first, with the original arguments (for the computed variant after \<open>key_func\<close>, which
  gives the key), and what the wrapper returns is what \<open>func\<close> returned, never a value
  from the cache. When \<open>func\<close> returns \<open>v\<close>, \<^verbatim>\<open>raw_set\<close> writes \<open>v\<close> under the key
  whether or not the cache had an entry for it, so the instance's cache holds \<open>v\<close>
  under the key afterwards.
\<close>

theorem replace_overwrites:
  "fst (replace_static key func self args w) = fst (func self args w) \<and>
   (func self args w = (Inr v, w1) \<longrightarrow>
      replace_static key func self args w = (Inr v, raw_set self key v w1) \<and>
      cached (raw_set self key v w1) self key = Some v) \<and>
   replace_computed key_func func self args w =
     (case key_func args w of
        (Inl e, w0) \<Rightarrow> (Inl e, w0)
      | (Inr k, w0) \<Rightarrow> replace_static k func self args w0) \<and>
   (key_func args w = (Inr key, w0) \<and> func self args w0 = (Inr v, w1) \<longrightarrow>
      replace_computed key_func func self args w = (Inr v, raw_set self key v w1) \<and>
      cached (raw_set self key v w1) self key = Some v)"
proof (intro conjI impI)
  show "fst (replace_static key func self args w) = fst (func self args w)"
    by (rule fst_replace_static)
  show "replace_computed key_func func self args w =
     (case key_func args w of
        (Inl e, w0) \<Rightarrow> (Inl e, w0)
      | (Inr k, w0) \<Rightarrow> replace_static k func self args w0)"
    by (rule replace_computed_eq)
  show "cached (raw_set self key v w1) self key = Some v"
    by (simp add: cached_raw_set)
  then show "cached (raw_set self key v w1) self key = Some v" .
next
  assume "func self args w = (Inr v, w1)"
  then show "replace_static key func self args w = (Inr v, raw_set self key v w1)"
    by (rule replace_static_ok)
next
  assume "key_func args w = (Inr key, w0) \<and> func self args w0 = (Inr v, w1)"
  then show "replace_computed key_func func self args w = (Inr v, raw_set self key v w1)"
    by (simp add: replace_computed_eq replace_static_ok)
qed

theorem replace_overwrites_witness:
  "cached (raw_set 0 ''x'' 7 world0) 0 ''x'' = Some (7::int) \<and>
   fst (replace_static ''x'' tick 0 5 (raw_set 0 ''x'' 7 world0)) = Inr 1 \<and>
   cached (snd (replace_static ''x'' tick 0 5 (raw_set 0 ''x'' 7 world0))) 0 ''x'' = Some 1 \<and>
   cached (snd (replace_static ''x'' tick 0 5 world0)) 0 ''x'' = Some 1 \<and>
   fst (replace_computed key_count tick 0 5 (raw_set 0 5 7 world0)) = Inr 1 \<and>
   cached (snd (replace_computed key_count tick 0 5 (raw_set 0 5 7 world0))) 0 5 = Some 1"
proof -
  let ?wa = "raw_set 0 ''x'' 7 (world0 :: (nat, string, int, counters) world)"
  let ?wz = "world0 :: (nat, string, int, counters) world"
  let ?va = "raw_set 0 5 7 (world0 :: (nat, int, int, counters) world)"
  have old: "cached ?wa 0 ''x'' = Some 7"
    by (simp add: ex_defs op_defs)
  have run: "tick 0 5 ?wa = (Inr 1, count_f ?wa)"
    by (simp add: ex_defs op_defs)
  have run0: "tick 0 5 ?wz = (Inr 1, count_f ?wz)"
    by (simp add: ex_defs op_defs)
  have key: "key_count 5 ?va = (Inr 5, count_key ?va)"
    by (simp add: ex_defs)
  have crun: "tick 0 5 (count_key ?va) = (Inr 1, count_f (count_key ?va))"
    by (simp add: ex_defs op_defs)
  note a = replace_overwrites [of "''x''" tick 0 5 ?wa 1 "count_f ?wa",
      THEN conjunct2, THEN conjunct1, rule_format, OF run]
  note b = replace_overwrites [of "''x''" tick 0 5 ?wz 1 "count_f ?wz",
      THEN conjunct2, THEN conjunct1, rule_format, OF run0]
  note c = replace_overwrites [of 5 tick 0 5 ?va 1 "count_f (count_key ?va)" key_count
        "count_key ?va",
      THEN conjunct2, THEN conjunct2, THEN conjunct2, rule_format, OF conjI [OF key crun]]
  from old a b c show ?thesis
    by simp
qed

lemma static_error:
  assumes "fst (static key func self args w) = Inl e"
  shows "cached w self key = None \<and> fst (func self args (snd (lazy_init self w))) = Inl e"
proof (cases "cached w self key")
  case None
  with assms show ?thesis
    by (auto simp: static_miss split: prod.splits sum.splits)
next
  case (Some v)
  with assms show ?thesis by (simp add: static_hit)
qed

lemma computed_error:
  assumes "fst (computed key_func func self args w) = Inl e"
  shows "fst (key_func args w) = Inl e \<or>
    (\<exists>k w0. key_func args w = (Inr k, w0) \<and> cached w0 self k = None \<and>
       fst (func self args (snd (lazy_init self w0))) = Inl e)"
proof (cases "key_func args w")
  case (Pair r w0)
  show ?thesis
  proof (cases r)
    case (Inl e')
    with Pair assms show ?thesis by (simp add: computed_eq)
  next
    case (Inr k)
    with Pair assms have "fst (static k func self args w0) = Inl e"
      by (simp add: computed_eq)
    then have "cached w0 self k = None \<and> fst (func self args (snd (lazy_init self w0))) = Inl e"
      by (rule static_error)
    with Pair Inr show ?thesis by simp
  qed
qed

lemma raw_get_after_remove_absent:
  "cached w inst key = None \<Longrightarrow> fst (raw_get b k (snd (raw_remove inst key w))) = fst (raw_get b k w)"
  by (simp add: raw_get_eq cached_raw_remove)

section \<open>Missing keys\<close>

text \<open>
  Claim C6. \<^verbatim>\<open>raw_get\<close> raises \<^verbatim>\<open>KeyError\<close> exactly when the instance's cache has no
  entry for the key, and returns the stored value otherwise. The memoizing wrappers
  raise no \<^verbatim>\<open>KeyError\<close> of their own: an exception that leaves \<^verbatim>\<open>static\<close> is the
  exception \<open>func\<close> raised on a miss, and one that leaves \<^verbatim>\<open>computed\<close> is that of
  \<open>key_func\<close> or of \<open>func\<close>. \<^verbatim>\<open>raw_remove\<close> of a key the instance's cache does not hold
  returns normally; it does what \<^verbatim>\<open>_lazy_init\<close> does and nothing more, so the rest of the
  state, every cache entry of every instance and the outcome of every later \<^verbatim>\<open>raw_get\<close>
  are as before (the registry itself may now hold an empty dict for the instance, which
  the accessors cannot tell from no dict).
\<close>

theorem key_not_found:
  "raw_get inst key w =
     ((case cached w inst key of None \<Rightarrow> Inl (KeyError key) | Some v \<Rightarrow> Inr v),
      snd (lazy_init inst w)) \<and>
   (cached w inst key = None \<longrightarrow> fst (raw_get inst key w) = Inl (KeyError key)) \<and>
   (cached w inst key = Some v \<longrightarrow> fst (raw_get inst key w) = Inr v) \<and>
   (fst (static key func self args w) = Inl e \<longrightarrow>
      cached w self key = None \<and> fst (func self args (snd (lazy_init self w))) = Inl e) \<and>
   (fst (computed key_func func self args w) = Inl e \<longrightarrow>
      fst (key_func args w) = Inl e \<or>
      (\<exists>k w0. key_func args w = (Inr k, w0) \<and> cached w0 self k = None \<and>
         fst (func self args (snd (lazy_init self w0))) = Inl e)) \<and>
   (cached w inst key = None \<longrightarrow>
      fst (raw_remove inst key w) = Inr () \<and>
      raw_remove inst key w = (Inr (), snd (lazy_init inst w)) \<and>
      user (snd (raw_remove inst key w)) = user w \<and>
      (\<forall>b k. cached (snd (raw_remove inst key w)) b k = cached w b k) \<and>
      (\<forall>b k. fst (raw_get b k (snd (raw_remove inst key w))) = fst (raw_get b k w)))"
proof (intro conjI impI allI)
  show "raw_get inst key w =
     ((case cached w inst key of None \<Rightarrow> Inl (KeyError key) | Some v \<Rightarrow> Inr v),
      snd (lazy_init inst w))"
    by (rule raw_get_eq)
  show "fst (raw_get inst key w) = Inl (KeyError key)" if "cached w inst key = None"
    using that by (simp add: raw_get_eq)
  show "fst (raw_get inst key w) = Inr v" if "cached w inst key = Some v"
    using that by (simp add: raw_get_eq)
  show "cached w self key = None" if "fst (static key func self args w) = Inl e"
    using static_error [OF that] by simp
  show "fst (func self args (snd (lazy_init self w))) = Inl e"
    if "fst (static key func self args w) = Inl e"
    using static_error [OF that] by simp
  show "fst (key_func args w) = Inl e \<or>
      (\<exists>k w0. key_func args w = (Inr k, w0) \<and> cached w0 self k = None \<and>
         fst (func self args (snd (lazy_init self w0))) = Inl e)"
    if "fst (computed key_func func self args w) = Inl e"
    using that by (rule computed_error)
  show "fst (raw_remove inst key w) = Inr ()"
    by (rule fst_raw_remove)
  show "raw_remove inst key w = (Inr (), snd (lazy_init inst w))" if "cached w inst key = None"
    using that by (rule raw_remove_absent)
  show "user (snd (raw_remove inst key w)) = user w"
    by (rule user_raw_remove)
  show "cached (snd (raw_remove inst key w)) b k = cached w b k" if "cached w inst key = None" for b k
    using that by (auto simp: cached_raw_remove)
  show "fst (raw_get b k (snd (raw_remove inst key w))) = fst (raw_get b k w)"
    if "cached w inst key = None" for b k
    using that by (auto simp: raw_get_eq cached_raw_remove)
qed

theorem key_not_found_witness:
  "fst (raw_get 0 ''x'' (world0 :: (nat, string, int, counters) world)) = Inl (KeyError ''x'') \<and>
   fst (raw_get 0 ''x'' (raw_set 0 ''x'' 7 world0 :: (nat, string, int, counters) world)) = Inr 7 \<and>
   fst (static ''x'' tick 0 5 world0) = Inr 1 \<and>
   fst (static ''x'' boom 0 5 (world0 :: (nat, string, int, counters) world)) =
     Inl (Raised ''boom'') \<and>
   fst (boom 0 5 (snd (lazy_init 0 (world0 :: (nat, string, int, counters) world)))) =
     Inl (Raised ''boom'') \<and>
   fst (computed key_boom tick 0 5 world0) = Inl (Raised ''bad key'') \<and>
   fst (raw_remove 0 ''x'' (world0 :: (nat, string, int, counters) world)) = Inr () \<and>
   cached (snd (raw_remove 0 ''x'' (world0 :: (nat, string, int, counters) world))) 0 ''x'' =
     None \<and>
   fst (raw_get 0 ''x'' (snd (raw_remove 0 ''x'' (world0 :: (nat, string, int, counters) world)))) =
     Inl (KeyError ''x'')"
proof -
  let ?wz = "world0 :: (nat, string, int, counters) world"
  let ?wa = "raw_set 0 ''x'' 7 ?wz"
  let ?vz = "world0 :: (nat, int, int, counters) world"
  have absent: "cached ?wz 0 ''x'' = None"
    by (simp add: ex_defs op_defs)
  have present: "cached ?wa 0 ''x'' = Some 7"
    by (simp add: ex_defs op_defs)
  have ok: "fst (static ''x'' tick 0 5 ?wz) = Inr 1"
    by (simp add: static_def ex_defs op_defs)
  have bad: "fst (static ''x'' boom 0 5 ?wz) = Inl (Raised ''boom'')"
    by (simp add: static_def ex_defs op_defs)
  have kbad: "fst (computed key_boom tick 0 5 ?vz) = Inl (Raised ''bad key'')"
    by (simp add: computed_def ex_defs op_defs)
  note t = key_not_found [of 0 "''x''" ?wz 7 boom 0 5 "Raised ''boom''"]
  note g1 = t [THEN conjunct2, THEN conjunct1, rule_format, OF absent]
  note g2 = key_not_found [of 0 "''x''" ?wa 7, THEN conjunct2, THEN conjunct2, THEN conjunct1,
      rule_format, OF present]
  note s1 = t [THEN conjunct2, THEN conjunct2, THEN conjunct2, THEN conjunct1,
      rule_format, OF bad]
  note c1 = key_not_found [of _ _ ?vz _ tick 0 5 "Raised ''bad key''" key_boom,
      THEN conjunct2, THEN conjunct2, THEN conjunct2, THEN conjunct2, THEN conjunct1,
      rule_format, OF kbad]
  note r1 = t [THEN conjunct2, THEN conjunct2, THEN conjunct2, THEN conjunct2, THEN conjunct2,
      rule_format, OF absent]
  from r1 have r2: "cached (snd (raw_remove 0 ''x'' ?wz)) 0 ''x'' = cached ?wz 0 ''x''"
    and r3: "fst (raw_get 0 ''x'' (snd (raw_remove 0 ''x'' ?wz))) = fst (raw_get 0 ''x'' ?wz)"
    and r4: "fst (raw_remove 0 ''x'' ?wz) = Inr ()"
    by blast+
  from g1 g2 ok bad s1 c1 kbad r2 r3 r4 absent show ?thesis
    by simp
qed


section \<open>Failing computations\<close>




lemma call_each_static_miss:
  assumes "cached w self key = None" "func self args (snd (lazy_init self w)) = (Inr v, w2)"
    "caches w2 self \<noteq> None"
  shows "call_each (static key func) self (args # rest) w =
    (replicate (Suc (length rest)) (Inr v), setitem self key v w2)"
proof -
  have "static key func self args w = (Inr v, setitem self key v w2)"
    using assms(1,2) by (rule static_miss_ok)
  moreover have "cached (setitem self key v w2) self key = Some v"
    using assms(3) by (simp add: cached_setitem)
  ultimately show ?thesis
    by (simp add: call_each_static_hit)
qed

section \<open>Cached \<^verbatim>\<open>None\<close>\<close>

text \<open>
  Claim C8. With cached values of type \<open>'x option\<close>, Python's \<^verbatim>\<open>None\<close> is the value
  \<open>None\<close>; an entry holding it is \<open>Some None\<close>, no entry is \<open>None\<close>. The lookup tests
  presence (the \<^verbatim>\<open>KeyError\<close> of \<^verbatim>\<open>cache[key]\<close>), not the value: with \<^verbatim>\<open>None\<close> stored
  under the key, the memoized call returns \<^verbatim>\<open>None\<close> and leaves the state as it is
  (\<open>func\<close> is not run) and \<^verbatim>\<open>raw_get\<close> returns it too; from an absent key, a first call
  whose computation returns \<^verbatim>\<open>None\<close> stores it, and the calls that follow return it
  from the cache, the state being the one a single run of \<open>func\<close> left.
\<close>

theorem none_is_cached:
  "(cached w self key = Some None \<longrightarrow>
      static key func self args w = (Inr None, w) \<and> fst (raw_get self key w) = Inr None) \<and>
   (cached w self key = None \<and> func self args (snd (lazy_init self w)) = (Inr None, w2) \<and>
    caches w2 self \<noteq> None \<longrightarrow>
      cached (setitem self key None w2) self key = Some None \<and>
      call_each (static key func) self (args # rest) w =
        (replicate (Suc (length rest)) (Inr None), setitem self key None w2))"
proof (intro conjI impI)
  assume "cached w self key = Some None"
  then show "static key func self args w = (Inr None, w)"
    by (rule static_hit)
next
  assume "cached w self key = Some None"
  then show "fst (raw_get self key w) = Inr None"
    by (simp add: raw_get_eq)
next
  assume h: "cached w self key = None \<and> func self args (snd (lazy_init self w)) = (Inr None, w2) \<and>
    caches w2 self \<noteq> None"
  then show "cached (setitem self key None w2) self key = Some None"
    by (simp add: cached_setitem)
  from h show "call_each (static key func) self (args # rest) w =
        (replicate (Suc (length rest)) (Inr None), setitem self key None w2)"
    by (intro call_each_static_miss) simp_all
qed

theorem none_is_cached_witness:
  "fst (call_each (static ''x'' nothing) 0 [5, 6] world0) = [Inr None, Inr None] \<and>
   f_calls (user (snd (call_each (static ''x'' nothing) 0 [5, 6] world0))) = 1 \<and>
   cached (snd (call_each (static ''x'' nothing) 0 [5, 6] world0)) 0 ''x'' = Some None \<and>
   cached (world0 :: (nat, string, int option, counters) world) 0 ''x'' = None \<and>
   static ''x'' nothing 0 5 (raw_set 0 ''x'' None world0) =
     (Inr None, raw_set 0 ''x'' None world0) \<and>
   fst (raw_get 0 ''x'' (raw_set 0 ''x'' None world0 :: (nat, string, int option, counters) world)) =
     Inr None \<and>
   fst (raw_get 0 ''x'' (world0 :: (nat, string, int option, counters) world)) =
     Inl (KeyError ''x'')"
proof -
  let ?wz = "world0 :: (nat, string, int option, counters) world"
  let ?w2 = "count_f (snd (lazy_init 0 ?wz))"
  let ?wn = "raw_set 0 ''x'' None ?wz"
  have absent: "cached ?wz 0 ''x'' = None"
    by (simp add: ex_defs op_defs)
  have run: "nothing 0 5 (snd (lazy_init 0 ?wz)) = (Inr None, ?w2)"
    by (simp add: nothing_def)
  have live: "caches ?w2 0 \<noteq> None"
    by (simp add: ex_defs op_defs)
  have stored: "cached ?wn 0 ''x'' = Some None"
    by (simp add: ex_defs op_defs)
  note m = none_is_cached [of ?wz 0 "''x''" nothing 5 ?w2 "[6]", THEN conjunct2, rule_format,
      OF conjI [OF absent conjI [OF run live]]]
  note h = none_is_cached [of ?wn 0 "''x''" nothing 5, THEN conjunct1, rule_format, OF stored]
  have cnt: "f_calls (user (setitem 0 ''x'' None ?w2)) = 1"
    by (simp add: ex_defs op_defs)
  have miss: "fst (raw_get 0 ''x'' ?wz) = Inl (KeyError ''x'')"
    by (simp add: raw_get_eq absent)
  from m h cnt absent miss show ?thesis
    by simp
qed

















section \<open>One cache per instance\<close>




section \<open>The key function runs first\<close>

text \<open>
  Claim C10. Each computed-key wrapper is \<open>key_func\<close>, applied once to the arguments in
  the state of the call, followed by its static-key counterpart under the derived key
  in the state \<open>key_func\<close> left; the counterpart does not mention \<open>key_func\<close>. So
  \<open>key_func\<close> is evaluated once per call, before \<^verbatim>\<open>_lazy_init\<close>, before \<open>func\<close> and
  before any write to the cache, also when the memoizing wrapper then hits the cache.
  When \<open>key_func\<close> raises, the call ends with that exception in the state \<open>key_func\<close>
  left, whatever \<open>func\<close> is: \<open>func\<close> is not run and the wrapper has changed nothing.
\<close>

theorem key_evaluated_first:
  "computed key_func func self args w =
     (case key_func args w of
        (Inl e, w0) \<Rightarrow> (Inl e, w0)
      | (Inr key, w0) \<Rightarrow> static key func self args w0) \<and>
   remove_computed key_func func self args w =
     (case key_func args w of
        (Inl e, w0) \<Rightarrow> (Inl e, w0)
      | (Inr key, w0) \<Rightarrow> remove_static key func self args w0) \<and>
   replace_computed key_func func self args w =
     (case key_func args w of
        (Inl e, w0) \<Rightarrow> (Inl e, w0)
      | (Inr key, w0) \<Rightarrow> replace_static key func self args w0) \<and>
   (key_func args w = (Inl e, w0) \<longrightarrow>
      computed key_func func self args w = (Inl e, w0) \<and>
      remove_computed key_func func self args w = (Inl e, w0) \<and>
      replace_computed key_func func self args w = (Inl e, w0)) \<and>
   (key_func args w = (Inr key, w0) \<and> cached w0 self key = Some v \<longrightarrow>
      computed key_func func self args w = (Inr v, w0))"
proof (intro conjI impI)
  show "computed key_func func self args w =
     (case key_func args w of
        (Inl e, w0) \<Rightarrow> (Inl e, w0)
      | (Inr key, w0) \<Rightarrow> static key func self args w0)"
    by (rule computed_eq)
  show "remove_computed key_func func self args w =
     (case key_func args w of
        (Inl e, w0) \<Rightarrow> (Inl e, w0)
      | (Inr key, w0) \<Rightarrow> remove_static key func self args w0)"
    by (rule remove_computed_eq)
  show "replace_computed key_func func self args w =
     (case key_func args w of
        (Inl e, w0) \<Rightarrow> (Inl e, w0)
      | (Inr key, w0) \<Rightarrow> replace_static key func self args w0)"
    by (rule replace_computed_eq)
next
  assume h: "key_func args w = (Inl e, w0)"
  then show "computed key_func func self args w = (Inl e, w0)"
    by (simp add: computed_eq)
  from h show "remove_computed key_func func self args w = (Inl e, w0)"
    by (simp add: remove_computed_eq)
  from h show "replace_computed key_func func self args w = (Inl e, w0)"
    by (simp add: replace_computed_eq)
next
  assume "key_func args w = (Inr key, w0) \<and> cached w0 self key = Some v"
  then show "computed key_func func self args w = (Inr v, w0)"
    by (simp add: computed_eq static_hit)
qed

theorem key_evaluated_first_witness:
  "computed key_boom tick 0 5 (raw_set 0 5 7 world0) =
     (Inl (Raised ''bad key''), count_key (raw_set 0 5 7 world0)) \<and>
   remove_computed key_boom tick 0 5 (raw_set 0 5 7 world0) =
     (Inl (Raised ''bad key''), count_key (raw_set 0 5 7 world0)) \<and>
   replace_computed key_boom tick 0 5 (raw_set 0 5 7 world0) =
     (Inl (Raised ''bad key''), count_key (raw_set 0 5 7 world0)) \<and>
   caches (count_key (raw_set 0 5 7 world0 :: (nat, int, int, counters) world)) =
     caches (raw_set 0 5 7 world0) \<and>
   user (count_key (raw_set 0 5 7 world0 :: (nat, int, int, counters) world)) =
     \<lparr>f_calls = 0, key_calls = 1\<rparr> \<and>
   computed key_count tick 0 5 (raw_set 0 5 7 world0) =
     (Inr 7, count_key (raw_set 0 5 7 world0)) \<and>
   user (snd (computed key_count tick 0 5 world0)) = \<lparr>f_calls = 1, key_calls = 1\<rparr> \<and>
   user (snd (remove_computed key_count tick 0 5 world0)) = \<lparr>f_calls = 1, key_calls = 1\<rparr> \<and>
   user (snd (replace_computed key_count tick 0 5 world0)) = \<lparr>f_calls = 1, key_calls = 1\<rparr>"
proof -
  let ?vz = "world0 :: (nat, int, int, counters) world"
  let ?va = "raw_set 0 5 7 ?vz"
  let ?k = "Raised ''bad key'' :: int error"
  have kb: "key_boom 5 ?va = (Inl ?k, count_key ?va)"
    by (simp add: key_boom_def)
  have kc: "key_count 5 ?va = (Inr 5, count_key ?va)"
    by (simp add: key_count_def)
  have hit: "cached (count_key ?va) 0 5 = Some 7"
    by (simp add: ex_defs op_defs)
  note fail = key_evaluated_first [where key_func = key_boom and func = tick and self = 0
      and args = 5 and w = ?va and e = ?k and ?w0.0 = "count_key ?va",
      THEN conjunct2, THEN conjunct2, THEN conjunct2, THEN conjunct1, rule_format, OF kb]
  note cached_hit = key_evaluated_first [where key_func = key_count and func = tick and self = 0
      and args = 5 and w = ?va and key = 5 and ?w0.0 = "count_key ?va" and v = 7,
      THEN conjunct2, THEN conjunct2, THEN conjunct2, THEN conjunct2, rule_format,
      OF conjI [OF kc hit]]
  note eqs = key_evaluated_first [where key_func = key_count and func = tick and self = 0
      and args = 5 and w = ?vz]
  have same: "caches (count_key ?va) = caches ?va"
    by (simp add: count_key_def)
  have cnt: "user (count_key ?va) = \<lparr>f_calls = 0, key_calls = 1\<rparr>"
    by (simp add: ex_defs op_defs)
  have kz: "key_count 5 ?vz = (Inr 5, count_key ?vz)"
    by (simp add: key_count_def)
  have u1: "user (snd (computed key_count tick 0 5 ?vz)) = \<lparr>f_calls = 1, key_calls = 1\<rparr>"
    unfolding eqs [THEN conjunct1] kz
    by (simp add: static_def ex_defs op_defs)
  have u2: "user (snd (remove_computed key_count tick 0 5 ?vz)) = \<lparr>f_calls = 1, key_calls = 1\<rparr>"
    unfolding eqs [THEN conjunct2, THEN conjunct1] kz
    by (simp add: remove_static_def ex_defs op_defs)
  have u3: "user (snd (replace_computed key_count tick 0 5 ?vz)) = \<lparr>f_calls = 1, key_calls = 1\<rparr>"
    unfolding eqs [THEN conjunct2, THEN conjunct2, THEN conjunct1] kz
    by (simp add: replace_static_def ex_defs op_defs)
  from fail cached_hit same cnt u1 u2 u3 show ?thesis
    by simp
qed

end
